theory Spec2Isabelle
  imports Complex_Main
begin

section \<open>Python values: errors, indexing, integer text\<close>

text \<open>
  Every exception the modelled code can raise is a value; a computation that may raise
  returns \<open>py_error + 'a\<close> with \<open>Inl\<close> carrying the exception.
\<close>

datatype py_error =
    IndexError
  | KeyError
  | ValueError
  | TypeError
  | ZeroDivisionError
  | FileNotFoundError
  | AttributeError
  | CvError
  | RuntimeError

text \<open>\<open>xs[i]\<close> on a Python list: a negative index counts from the end, anything else out of
  range raises IndexError.\<close>

definition py_getitem :: "'a list \<Rightarrow> int \<Rightarrow> py_error + 'a" where
  "py_getitem xs i =
     (if 0 \<le> i \<and> i < int (length xs) then Inr (xs ! nat i)
      else if - int (length xs) \<le> i \<and> i < 0 then Inr (xs ! nat (i + int (length xs)))
      else Inl IndexError)"

text \<open>\<open>range(n)\<close> for an integer \<open>n\<close>: empty when \<open>n \<le> 0\<close>.\<close>

definition py_range :: "int \<Rightarrow> int list" where
  "py_range n = map int [0..<nat n]"

text \<open>A list comprehension (or an appending loop) whose body may raise: the elements are
  computed left to right and the first exception ends the loop.\<close>

fun collect :: "('a \<Rightarrow> py_error + 'b) \<Rightarrow> 'a list \<Rightarrow> py_error + 'b list" where
  "collect f [] = Inr []"
| "collect f (x # xs) =
     (case f x of
        Inl e \<Rightarrow> Inl e
      | Inr y \<Rightarrow> (case collect f xs of Inl e \<Rightarrow> Inl e | Inr ys \<Rightarrow> Inr (y # ys)))"

text \<open>\<open>str(n)\<close> of an integer: decimal digits, a leading minus sign for a negative one.\<close>

definition digit_char :: "nat \<Rightarrow> char" where
  "digit_char d = char_of (48 + d)"

fun str_nat :: "nat \<Rightarrow> string" where
  "str_nat n = (if n < 10 then [digit_char n] else str_nat (n div 10) @ [digit_char (n mod 10)])"

declare str_nat.simps [simp del]

definition str_int :: "int \<Rightarrow> string" where
  "str_int i = (if i < 0 then CHR ''-'' # str_nat (nat (- i)) else str_nat (nat i))"

text \<open>\<open>int(s)\<close> of a string: surrounding whitespace is stripped, one sign is allowed, then
  decimal digits, where a single underscore may stand between two digits; anything else
  raises ValueError. Strings are byte strings here, so the digits are the ASCII ones.\<close>

definition is_space :: "char \<Rightarrow> bool" where
  "is_space c = (c = CHR '' '' \<or> c = CHR 0x09 \<or> c = CHR 0x0A \<or> c = CHR 0x0B
                 \<or> c = CHR 0x0C \<or> c = CHR 0x0D)"

definition strip :: "string \<Rightarrow> string" where
  "strip s = rev (dropWhile is_space (rev (dropWhile is_space s)))"

definition is_digit :: "char \<Rightarrow> bool" where
  "is_digit c = (48 \<le> (of_char c :: nat) \<and> (of_char c :: nat) \<le> 57)"

definition digit_val :: "char \<Rightarrow> nat" where
  "digit_val c = of_char c - 48"

fun parse_digits :: "nat \<Rightarrow> string \<Rightarrow> nat option" where
  "parse_digits acc [] = Some acc"
| "parse_digits acc (c # cs) =
     (if is_digit c then parse_digits (10 * acc + digit_val c) cs
      else if c = CHR ''_'' \<and> cs \<noteq> [] \<and> is_digit (hd cs) then parse_digits acc cs
      else None)"

definition parse_unsigned :: "string \<Rightarrow> nat option" where
  "parse_unsigned s =
     (case s of [] \<Rightarrow> None | c # cs \<Rightarrow> if is_digit c then parse_digits 0 s else None)"

definition py_int :: "string \<Rightarrow> py_error + int" where
  "py_int s =
     (case strip s of
        [] \<Rightarrow> Inl ValueError
      | c # cs \<Rightarrow>
          if c = CHR ''-'' then
            (case parse_unsigned cs of None \<Rightarrow> Inl ValueError | Some n \<Rightarrow> Inr (- int n))
          else if c = CHR ''+'' then
            (case parse_unsigned cs of None \<Rightarrow> Inl ValueError | Some n \<Rightarrow> Inr (int n))
          else
            (case parse_unsigned (c # cs) of None \<Rightarrow> Inl ValueError | Some n \<Rightarrow> Inr (int n)))"

text \<open>\<open>s.split('.')[0]\<close>: the part of \<open>s\<close> before its first dot, all of \<open>s\<close> when it has none.\<close>

definition split_dot_0 :: "string \<Rightarrow> string" where
  "split_dot_0 s = takeWhile (\<lambda>c. c \<noteq> CHR ''.'') s"

section \<open>The frame sampler (pipeline/dataset.py)\<close>

text \<open>The file system as the dataset reads it: \<open>os.listdir\<close> of a folder (in the order the
  system returns the names) and \<open>cv2.imread\<close> of a path, which yields no image for a file
  it cannot read.\<close>

datatype json =
    JNull
  | JBool bool
  | JInt int
  | JReal real
  | JStr string
  | JArr "json list"
  | JObj "(string \<times> json) list"

record 'img filesystem =
  listdir :: "string \<rightharpoonup> string list"
  imread :: "string \<rightharpoonup> 'img"
  json_load :: "string \<Rightarrow> py_error + json"

record sampling =
  num_groups :: int
  group_size :: int

definition os_listdir :: "'img filesystem \<Rightarrow> string \<Rightarrow> py_error + string list" where
  "os_listdir fs path = (case listdir fs path of None \<Rightarrow> Inl FileNotFoundError | Some ns \<Rightarrow> Inr ns)"

text \<open>\<open>sort_files\<close>: the numeric stems are parsed, sorted as integers and written back as
  \<open>str(x) + '.png'\<close>.\<close>

definition sort_files :: "string list \<Rightarrow> py_error + string list" where
  "sort_files file_names =
     (case collect (\<lambda>x. py_int (split_dot_0 x)) file_names of
        Inl e \<Rightarrow> Inl e
      | Inr to_int \<Rightarrow> Inr (map (\<lambda>x. str_int x @ ''.png'') (sort to_int)))"

text \<open>\<open>get_frame_names\<close> after the directory has been listed: the interval is computed with
  floor division before the loops run, and every frame is fetched by list indexing.\<close>

definition sample_groups :: "sampling \<Rightarrow> string list \<Rightarrow> py_error + string list list" where
  "sample_groups smp listing =
     (case sort_files listing of
        Inl e \<Rightarrow> Inl e
      | Inr file_names \<Rightarrow>
          let total_frames = int (length file_names) in
          if num_groups smp = 0 then Inl ZeroDivisionError
          else
            let interval = (total_frames - group_size smp) div num_groups smp in
            collect (\<lambda>i. collect (\<lambda>j. py_getitem file_names (i * interval + j))
                                 (py_range (group_size smp)))
                    (py_range (num_groups smp)))"

definition get_frame_names ::
  "'img filesystem \<Rightarrow> sampling \<Rightarrow> string \<Rightarrow> py_error + string list list" where
  "get_frame_names fs smp folder_path =
     (case os_listdir fs folder_path of
        Inl e \<Rightarrow> Inl e
      | Inr listing \<Rightarrow> sample_groups smp listing)"


text \<open>The storage layout names the frame with index \<open>n\<close> as \<open>n.png\<close>.\<close>

definition frame_file :: "nat \<Rightarrow> string" where
  "frame_file n = str_int (int n) @ ''.png''"

section \<open>The label resolver (pipeline/dataset.py)\<close>

text \<open>\<open>os.path.join\<close> on a POSIX system: an absolute component restarts the path, and a
  separator is inserted unless the path so far is empty or already ends with one.\<close>

definition path_join2 :: "string \<Rightarrow> string \<Rightarrow> string" where
  "path_join2 path b =
     (if b \<noteq> [] \<and> hd b = CHR ''/'' then b
      else if path = [] \<or> last path = CHR ''/'' then path @ b
      else path @ CHR ''/'' # b)"

definition path_join :: "string \<Rightarrow> string list \<Rightarrow> string" where
  "path_join a ps = foldl path_join2 a ps"

text \<open>\<open>float(v)\<close> of a decoded JSON value. Floats are read as reals. The text of a JSON
  string goes through Python's float parser, which is a parameter here; \<open>None\<close>, a list
  and an object raise TypeError.\<close>

fun py_float :: "(string \<Rightarrow> py_error + real) \<Rightarrow> json \<Rightarrow> py_error + real" where
  "py_float float_str JNull = Inl TypeError"
| "py_float float_str (JBool b) = Inr (if b then 1 else 0)"
| "py_float float_str (JInt n) = Inr (of_int n)"
| "py_float float_str (JReal r) = Inr r"
| "py_float float_str (JStr s) = float_str s"
| "py_float float_str (JArr xs) = Inl TypeError"
| "py_float float_str (JObj kvs) = Inl TypeError"

text \<open>\<open>details["is_fake"]\<close>: a key lookup on an object; a list, a string and a number
  cannot be indexed by a string.\<close>

fun py_get_key :: "json \<Rightarrow> string \<Rightarrow> py_error + json" where
  "py_get_key (JObj kvs) k = (case map_of kvs k of None \<Rightarrow> Inl KeyError | Some v \<Rightarrow> Inr v)"
| "py_get_key _ k = Inl TypeError"

text \<open>The inner loop of \<open>get_labels\<close> over \<open>file_data.items()\<close>: each record writes
  \<open>labels[id]\<close>, a later record overwriting an earlier one.\<close>

fun label_items ::
  "(string \<Rightarrow> py_error + real) \<Rightarrow> (string \<rightharpoonup> real) \<Rightarrow> (string \<times> json) list
   \<Rightarrow> py_error + (string \<rightharpoonup> real)" where
  "label_items float_str labels [] = Inr labels"
| "label_items float_str labels ((name, details) # rest) =
     (case py_get_key details ''is_fake'' of
        Inl e \<Rightarrow> Inl e
      | Inr v \<Rightarrow>
          (case py_float float_str v of
             Inl e \<Rightarrow> Inl e
           | Inr y \<Rightarrow> label_items float_str (labels(split_dot_0 name \<mapsto> y)) rest))"

text \<open>The outer loop over the files of the directory, in the order \<open>os.listdir\<close> gives.\<close>

fun label_files ::
  "'img filesystem \<Rightarrow> (string \<Rightarrow> py_error + real) \<Rightarrow> string \<Rightarrow> (string \<rightharpoonup> real)
   \<Rightarrow> string list \<Rightarrow> py_error + (string \<rightharpoonup> real)" where
  "label_files fs float_str labels_path labels [] = Inr labels"
| "label_files fs float_str labels_path labels (json_file # rest) =
     (case json_load fs (path_join labels_path [json_file]) of
        Inl e \<Rightarrow> Inl e
      | Inr (JObj file_data) \<Rightarrow>
          (case label_items float_str labels file_data of
             Inl e \<Rightarrow> Inl e
           | Inr labels' \<Rightarrow> label_files fs float_str labels_path labels' rest)
      | Inr _ \<Rightarrow> Inl AttributeError)"

definition get_labels ::
  "'img filesystem \<Rightarrow> (string \<Rightarrow> py_error + real) \<Rightarrow> string \<Rightarrow> py_error + (string \<rightharpoonup> real)" where
  "get_labels fs float_str labels_path =
     (case os_listdir fs labels_path of
        Inl e \<Rightarrow> Inl e
      | Inr files \<Rightarrow> label_files fs float_str labels_path Map.empty files)"

text \<open>The records of a directory in the order the resolver visits them: file after file,
  each file's records in their own order, only the files that hold an object.\<close>

fun file_records :: "py_error + json \<Rightarrow> (string \<times> json) list" where
  "file_records (Inr (JObj kvs)) = kvs"
| "file_records _ = []"

definition all_records :: "'img filesystem \<Rightarrow> string \<Rightarrow> string list \<Rightarrow> (string \<times> json) list" where
  "all_records fs labels_path files =
     concat (map (\<lambda>f. file_records (json_load fs (path_join labels_path [f]))) files)"


text \<open>A record whose \<open>is_fake\<close> field is the integer 0 or 1, as the label store writes it,
  and the entry such a record contributes: its identifier and its label.\<close>

definition record_entry :: "string \<times> json \<Rightarrow> string \<times> real" where
  "record_entry r =
     (split_dot_0 (fst r),
      (case py_get_key (snd r) ''is_fake'' of Inr (JInt b) \<Rightarrow> of_int b | _ \<Rightarrow> 0))"

definition binary_record :: "string \<times> json \<Rightarrow> bool" where
  "binary_record r =
     (py_get_key (snd r) ''is_fake'' = Inr (JInt 0) \<or> py_get_key (snd r) ''is_fake'' = Inr (JInt 1))"

section \<open>The dataset assembler (pipeline/dataset.py) and the inference loop (inference.py)\<close>

text \<open>\<open>s.split(sep)\<close> for a one-character separator: every occurrence cuts, so the result
  has one more part than there are separators.\<close>

fun py_split :: "char \<Rightarrow> string \<Rightarrow> string list" where
  "py_split sep [] = [[]]"
| "py_split sep (c # cs) =
     (if c = sep then [] # py_split sep cs
      else (case py_split sep cs of [] \<Rightarrow> [[c]] | p # ps \<Rightarrow> (c # p) # ps))"

text \<open>The image library as the dataset uses it. The colour conversion and the tensor
  conversion are functions of one image; the augmentation takes the two images of a pair
  (targets \<open>image\<close> and \<open>image0\<close>) and may raise; \<open>np.stack\<close> compares array shapes.\<close>

record ('img, 'ten) image_ops =
  cvtColor :: "'img \<Rightarrow> 'img"
  aug :: "'img \<Rightarrow> 'img \<Rightarrow> py_error + 'img \<times> 'img"
  img_shape :: "'img \<Rightarrow> nat list"
  ToTensor :: "'img \<Rightarrow> 'ten"

record CustomDataset =
  ids :: "string list"
  frames_path :: string
  labels :: "string \<rightharpoonup> real"
  sampling_of :: sampling

text \<open>\<open>np.stack\<close> of a list of arrays: the list must not be empty and all shapes must
  agree; the stacked array is kept as the list of its slices along the new first axis.\<close>

definition np_stack :: "('a \<Rightarrow> nat list) \<Rightarrow> 'a list \<Rightarrow> py_error + 'a list" where
  "np_stack shape_of arrays =
     (case arrays of
        [] \<Rightarrow> Inl ValueError
      | a # rest \<Rightarrow> if list_all (\<lambda>b. shape_of b = shape_of a) rest then Inr arrays else Inl ValueError)"

text \<open>The shape of a stacked array: the number of slices, then the shape of a slice.\<close>

definition stacked_shape :: "('a \<Rightarrow> nat list) \<Rightarrow> 'a list \<Rightarrow> nat list" where
  "stacked_shape shape_of arrays =
     length arrays # (case arrays of [] \<Rightarrow> [] | a # rest \<Rightarrow> shape_of a)"

text \<open>The inner loop of \<open>__getitem__\<close>: each frame of the group is read and converted;
  \<open>cv2.imread\<close> gives no image for an unreadable file and the conversion then raises.\<close>

definition read_frame ::
  "'img filesystem \<Rightarrow> ('img, 'ten) image_ops \<Rightarrow> string \<Rightarrow> string \<Rightarrow> py_error + 'img" where
  "read_frame fs ops folder_path frame_name =
     (case imread fs (path_join folder_path [frame_name]) of
        None \<Rightarrow> Inl CvError
      | Some img \<Rightarrow> Inr (cvtColor ops img))"

text \<open>The body of the loop over the groups: the whole group is read into \<open>volume\<close>, then
  \<open>volume[0]\<close> and \<open>volume[1]\<close> alone are augmented and stacked.\<close>

definition load_group ::
  "'img filesystem \<Rightarrow> ('img, 'ten) image_ops \<Rightarrow> string \<Rightarrow> string list \<Rightarrow> py_error + 'img list" where
  "load_group fs ops folder_path frame_group =
     (case collect (read_frame fs ops folder_path) frame_group of
        Inl e \<Rightarrow> Inl e
      | Inr volume \<Rightarrow>
          (case py_getitem volume 0 of
             Inl e \<Rightarrow> Inl e
           | Inr v0 \<Rightarrow>
               (case py_getitem volume 1 of
                  Inl e \<Rightarrow> Inl e
                | Inr v1 \<Rightarrow>
                    (case aug ops v0 v1 of
                       Inl e \<Rightarrow> Inl e
                     | Inr (t, t0) \<Rightarrow> np_stack (img_shape ops) [t, t0]))))"

text \<open>\<open>to_tensor\<close>: every frame of every group is converted, and the frames and the groups
  are stacked again.\<close>

definition to_tensor :: "('img, 'ten) image_ops \<Rightarrow> 'img list list \<Rightarrow> 'ten list list" where
  "to_tensor ops sample = map (map (ToTensor ops)) sample"

text \<open>\<open>video, face = id.split('_')\<close> needs exactly two parts.\<close>

definition unpack2 :: "'a list \<Rightarrow> py_error + 'a \<times> 'a" where
  "unpack2 xs = (case xs of [a, b] \<Rightarrow> Inr (a, b) | _ \<Rightarrow> Inl ValueError)"

definition getitem ::
  "'img filesystem \<Rightarrow> ('img, 'ten) image_ops \<Rightarrow> CustomDataset \<Rightarrow> int
   \<Rightarrow> py_error + 'ten list list \<times> real \<times> string" where
  "getitem fs ops ds index =
     (case py_getitem (ids ds) index of
        Inl e \<Rightarrow> Inl e
      | Inr ident \<Rightarrow>
          (case unpack2 (py_split CHR ''_'' ident) of
             Inl e \<Rightarrow> Inl e
           | Inr (video, face) \<Rightarrow>
               let folder_path = path_join (frames_path ds) [video, face] in
               (case get_frame_names fs (sampling_of ds) folder_path of
                  Inl e \<Rightarrow> Inl e
                | Inr frame_names \<Rightarrow>
                    (case collect (load_group fs ops folder_path) frame_names of
                       Inl e \<Rightarrow> Inl e
                     | Inr item \<Rightarrow>
                         (case np_stack (stacked_shape (img_shape ops)) item of
                            Inl e \<Rightarrow> Inl e
                          | Inr sample \<Rightarrow>
                              (case labels ds video of
                                 None \<Rightarrow> Inl KeyError
                               | Some y \<Rightarrow> Inr (to_tensor ops sample, y, ident)))))))"

text \<open>The loop of \<open>infer\<close>: the loader (batch size 1, no shuffling) asks the dataset for
  index 0, 1, ... in turn; nothing catches an exception, so the first one ends the run
  and no table is returned. The trained model is a parameter.\<close>

fun infer_loop ::
  "'img filesystem \<Rightarrow> ('img, 'ten) image_ops \<Rightarrow> ('ten list list list \<Rightarrow> py_error + real)
   \<Rightarrow> CustomDataset \<Rightarrow> (string \<rightharpoonup> real \<times> real) \<Rightarrow> int list
   \<Rightarrow> py_error + (string \<rightharpoonup> real \<times> real)" where
  "infer_loop fs ops model ds res [] = Inr res"
| "infer_loop fs ops model ds res (index # rest) =
     (case getitem fs ops ds index of
        Inl e \<Rightarrow> Inl e
      | Inr (x, y, ident) \<Rightarrow>
          (case model [x] of
             Inl e \<Rightarrow> Inl e
           | Inr pred \<Rightarrow> infer_loop fs ops model ds (res(ident \<mapsto> (pred, y))) rest))"

text \<open>\<open>infer\<close>: the dataset is built (its labels are resolved once, in the constructor) and
  iterated from the first index to the last.\<close>

definition infer ::
  "'img filesystem \<Rightarrow> ('img, 'ten) image_ops \<Rightarrow> (string \<Rightarrow> py_error + real)
   \<Rightarrow> ('ten list list list \<Rightarrow> py_error + real)
   \<Rightarrow> string list \<Rightarrow> string \<Rightarrow> string \<Rightarrow> sampling
   \<Rightarrow> py_error + (string \<rightharpoonup> real \<times> real)" where
  "infer fs ops float_str model track_ids data_path metadata_path smp =
     (case get_labels fs float_str metadata_path of
        Inl e \<Rightarrow> Inl e
      | Inr lbls \<Rightarrow>
          let test_dataset = \<lparr>ids = track_ids, frames_path = data_path, labels = lbls,
                              sampling_of = smp\<rparr>
          in infer_loop fs ops model test_dataset Map.empty (py_range (int (length track_ids))))"


text \<open>Whether the frame \<open>n.png\<close> of a track folder can be read, and the converted image the
  loop makes of it.\<close>

definition readable :: "'img filesystem \<Rightarrow> string \<Rightarrow> nat \<Rightarrow> bool" where
  "readable fs folder_path n = (imread fs (path_join folder_path [frame_file n]) \<noteq> None)"

definition track_frame :: "'img filesystem \<Rightarrow> ('img, 'ten) image_ops \<Rightarrow> string \<Rightarrow> nat \<Rightarrow> 'img" where
  "track_frame fs ops folder_path n =
     cvtColor ops (the (imread fs (path_join folder_path [frame_file n])))"

section \<open>The augmentation pipeline (pipeline/dataset.py, \<open>__init__\<close>)\<close>

text \<open>The stages the constructor lists, with the arguments it gives them. A stage is
  applied when it is marked \<open>always_apply\<close> or when the number drawn for it is below its
  probability \<open>p\<close> (the library's default is one half).\<close>

datatype transform_kind =
    ImageCompression nat nat
  | LongestMaxSize nat nat
  | PadIfNeeded nat nat
  | Resize nat nat
  | GaussNoise
  | GaussianBlur nat
  | RandomBrightnessContrast
  | ToGray
  | HorizontalFlip
  | ShiftScaleRotate

record stage =
  kind :: transform_kind
  always_apply :: bool
  prob :: real

definition aug_stages :: "bool \<Rightarrow> nat \<Rightarrow> stage list" where
  "aug_stages augmentation img_size =
     (if augmentation then
        [\<lparr>kind = ImageCompression 60 100, always_apply = False, prob = 0.5\<rparr>,
         \<lparr>kind = LongestMaxSize img_size 1, always_apply = True, prob = 1\<rparr>,
         \<lparr>kind = PadIfNeeded img_size img_size, always_apply = True, prob = 1\<rparr>,
         \<lparr>kind = Resize img_size img_size, always_apply = True, prob = 1\<rparr>,
         \<lparr>kind = GaussNoise, always_apply = False, prob = 0.1\<rparr>,
         \<lparr>kind = GaussianBlur 3, always_apply = False, prob = 0.05\<rparr>,
         \<lparr>kind = RandomBrightnessContrast, always_apply = False, prob = 0.7\<rparr>,
         \<lparr>kind = ToGray, always_apply = False, prob = 0.2\<rparr>,
         \<lparr>kind = HorizontalFlip, always_apply = False, prob = 0.5\<rparr>,
         \<lparr>kind = ShiftScaleRotate, always_apply = False, prob = 0.5\<rparr>]
      else
        [\<lparr>kind = LongestMaxSize img_size 1, always_apply = True, prob = 1\<rparr>,
         \<lparr>kind = PadIfNeeded img_size img_size, always_apply = True, prob = 1\<rparr>,
         \<lparr>kind = Resize img_size img_size, always_apply = True, prob = 1\<rparr>])"

text \<open>The library's image operations are parameters. The three shape stages take the image
  and their fixed arguments only; every other stage draws its parameters from the random
  generator, whose state \<open>'g\<close> it reads and advances, and applies them to both images of the
  pair.\<close>

record ('img, 'g) albu =
  random_unit :: "'g \<Rightarrow> real \<times> 'g"
  longest_max_size :: "nat \<Rightarrow> nat \<Rightarrow> 'img \<Rightarrow> 'img"
  pad_if_needed :: "nat \<Rightarrow> nat \<Rightarrow> 'img \<Rightarrow> 'img"
  resize :: "nat \<Rightarrow> nat \<Rightarrow> 'img \<Rightarrow> 'img"
  random_stage :: "transform_kind \<Rightarrow> 'g \<Rightarrow> 'img \<times> 'img \<Rightarrow> ('img \<times> 'img) \<times> 'g"

fun apply_kind ::
  "('img, 'g) albu \<Rightarrow> transform_kind \<Rightarrow> 'g \<Rightarrow> 'img \<times> 'img \<Rightarrow> ('img \<times> 'img) \<times> 'g" where
  "apply_kind lib (LongestMaxSize m i) g (a, b) =
     ((longest_max_size lib m i a, longest_max_size lib m i b), g)"
| "apply_kind lib (PadIfNeeded h w) g (a, b) =
     ((pad_if_needed lib h w a, pad_if_needed lib h w b), g)"
| "apply_kind lib (Resize h w) g (a, b) = ((resize lib h w a, resize lib h w b), g)"
| "apply_kind lib k g (a, b) = random_stage lib k g (a, b)"

text \<open>\<open>Compose\<close>: the stages run in order on the pair; each first draws the number that
  decides whether it is applied.\<close>

fun Compose ::
  "('img, 'g) albu \<Rightarrow> stage list \<Rightarrow> 'g \<Rightarrow> 'img \<times> 'img \<Rightarrow> ('img \<times> 'img) \<times> 'g" where
  "Compose lib [] g pair = (pair, g)"
| "Compose lib (st # rest) g pair =
     (case random_unit lib g of
        (u, g1) \<Rightarrow>
          if u < prob st \<or> always_apply st then
            (case apply_kind lib (kind st) g1 pair of (pair', g2) \<Rightarrow> Compose lib rest g2 pair')
          else Compose lib rest g1 pair)"

section \<open>The network branches (modules.py)\<close>

text \<open>A tensor is represented by its shape; the values depend on trained weights and are
  not modelled. \<open>view\<close> needs the same number of elements, \<open>permute\<close> a permutation of the
  axes, and \<open>squeeze()\<close> without an argument removes every axis of size one.\<close>

type_synonym tensor = "nat list"

definition view :: "nat list \<Rightarrow> tensor \<Rightarrow> py_error + tensor" where
  "view shp x = (if prod_list shp = prod_list x then Inr shp else Inl RuntimeError)"

definition permute :: "nat list \<Rightarrow> tensor \<Rightarrow> py_error + tensor" where
  "permute dims x =
     (if length dims = length x \<and> distinct dims \<and> list_all (\<lambda>d. d < length x) dims
      then Inr (map (\<lambda>d. x ! d) dims) else Inl RuntimeError)"

definition squeeze :: "tensor \<Rightarrow> tensor" where
  "squeeze x = filter (\<lambda>d. d \<noteq> 1) x"

text \<open>\<open>nn.Conv3d\<close> with stride 1 on a batch \<open>(n, c, d, h, w)\<close>: the channel count must be
  \<open>in_channels\<close> and the padded input must hold the kernel.\<close>

definition Conv3d ::
  "nat \<Rightarrow> nat \<Rightarrow> nat \<times> nat \<times> nat \<Rightarrow> nat \<times> nat \<times> nat \<Rightarrow> tensor \<Rightarrow> py_error + tensor" where
  "Conv3d in_channels out_channels kernel_size padding x =
     (case (kernel_size, padding, x) of
        ((kd, kh, kw), (pd, ph, pw), [n, c, d, h, w]) \<Rightarrow>
          if c = in_channels \<and> 0 < kd \<and> 0 < kh \<and> 0 < kw
             \<and> kd \<le> d + 2 * pd \<and> kh \<le> h + 2 * ph \<and> kw \<le> w + 2 * pw
          then Inr [n, out_channels, d + 2 * pd - kd + 1, h + 2 * ph - kh + 1, w + 2 * pw - kw + 1]
          else Inl RuntimeError
      | _ \<Rightarrow> Inl RuntimeError)"

text \<open>\<open>x.view(n, -1)\<close>: the second extent is inferred, which needs \<open>n\<close> to be positive
  and to divide the number of elements.\<close>

definition view_rows :: "nat \<Rightarrow> tensor \<Rightarrow> py_error + tensor" where
  "view_rows n x =
     (if 0 < n \<and> prod_list x mod n = 0 then Inr [n, prod_list x div n] else Inl RuntimeError)"

text \<open>\<open>nn.Linear\<close>: the last axis must have \<open>in_features\<close> entries.\<close>

definition Linear :: "nat \<Rightarrow> nat \<Rightarrow> tensor \<Rightarrow> py_error + tensor" where
  "Linear in_features out_features x =
     (if x \<noteq> [] \<and> last x = in_features then Inr (butlast x @ [out_features])
      else Inl RuntimeError)"

text \<open>\<open>torch.cat([a, b], dim=1)\<close> of two matrices.\<close>

definition cat_dim1 :: "tensor \<Rightarrow> tensor \<Rightarrow> py_error + tensor" where
  "cat_dim1 a b =
     (case (a, b) of
        ([n, k], [m, l]) \<Rightarrow> if n = m then Inr [n, k + l] else Inl RuntimeError
      | _ \<Rightarrow> Inl RuntimeError)"

text \<open>The feature extractor is a parameter of every branch: \<open>EfficientNetBlock.forward\<close>
  hands its input to the pretrained network and returns what that returns.\<close>

definition EfficientNetBlock_forward :: "('t \<Rightarrow> py_error + 't) \<Rightarrow> 't \<Rightarrow> py_error + 't" where
  "EfficientNetBlock_forward efficient_net x = efficient_net x"

text \<open>\<open>Spatial.forward\<close>: the extractor's result is bound to \<open>x_\<close>, and \<open>x\<close> is returned.\<close>

definition Spatial_forward :: "('t \<Rightarrow> py_error + 't) \<Rightarrow> 't \<Rightarrow> py_error + 't" where
  "Spatial_forward efficient_net x =
     (case EfficientNetBlock_forward efficient_net x of
        Inl e \<Rightarrow> Inl e
      | Inr x_ \<Rightarrow> Inr x)"

text \<open>\<open>Spatiotemporal.forward\<close>, for the configured frames per group \<open>d\<close> and motion
  features: permute, convolve with a kernel of depth \<open>d\<close>, \<open>squeeze()\<close>, extract.\<close>

definition Spatiotemporal_forward ::
  "nat \<Rightarrow> nat \<Rightarrow> (tensor \<Rightarrow> py_error + tensor) \<Rightarrow> tensor \<Rightarrow> py_error + tensor" where
  "Spatiotemporal_forward d features efficient_net x =
     (case permute [0, 2, 1, 3, 4] x of
        Inl e \<Rightarrow> Inl e
      | Inr x1 \<Rightarrow>
          (case Conv3d 3 features (d, 3, 3) (0, 1, 1) x1 of
             Inl e \<Rightarrow> Inl e
           | Inr x2 \<Rightarrow> EfficientNetBlock_forward efficient_net (squeeze x2)))"

record input_shape =
  batch_size :: nat
  groups_per_video :: nat
  frames_per_group :: nat
  channels :: nat
  height :: nat
  width :: nat

text \<open>\<open>TheModel.forward\<close> in shapes; the sigmoids keep the shape and are left out.\<close>

definition TheModel_forward ::
  "input_shape \<Rightarrow> nat \<Rightarrow> (tensor \<Rightarrow> py_error + tensor) \<Rightarrow> (tensor \<Rightarrow> py_error + tensor)
   \<Rightarrow> tensor \<Rightarrow> py_error + tensor" where
  "TheModel_forward shp features spa_net spt_net x =
     (let n = batch_size shp; g = groups_per_video shp; f = frames_per_group shp;
          c = channels shp; h = height shp; w = width shp in
      case view [n * g * f, c, h, w] x of
        Inl e \<Rightarrow> Inl e
      | Inr x_spa \<Rightarrow>
      (case Spatial_forward spa_net x_spa of
        Inl e \<Rightarrow> Inl e
      | Inr x_spa \<Rightarrow>
      (case view [n, g * f] x_spa of
        Inl e \<Rightarrow> Inl e
      | Inr x_spa \<Rightarrow>
      (case view [n * g, f, c, h, w] x of
        Inl e \<Rightarrow> Inl e
      | Inr x_spt \<Rightarrow>
      (case Spatiotemporal_forward f features spt_net x_spt of
        Inl e \<Rightarrow> Inl e
      | Inr x_spt \<Rightarrow>
      (case view [n, g] x_spt of
        Inl e \<Rightarrow> Inl e
      | Inr x_spt \<Rightarrow>
      (case cat_dim1 x_spa x_spt of
        Inl e \<Rightarrow> Inl e
      | Inr x \<Rightarrow>
      (case view_rows n x of
        Inl e \<Rightarrow> Inl e
      | Inr x \<Rightarrow>
      (case Linear (g * f + g) g x of
        Inl e \<Rightarrow> Inl e
      | Inr x \<Rightarrow> Linear g 1 x)))))))))"

text \<open>An extractor with the shape behaviour of an image classifier with \<open>num_classes\<close>
  outputs: a batch of three-channel images in, one row of scores per image out.\<close>

definition classifier_shape :: "nat \<Rightarrow> tensor \<Rightarrow> py_error + tensor" where
  "classifier_shape num_classes x =
     (case x of [n, c, h, w] \<Rightarrow> if c = 3 then Inr [n, num_classes] else Inl RuntimeError
      | _ \<Rightarrow> Inl RuntimeError)"

section \<open>A small data set\<close>

text \<open>Two tracks under \<open>data\<close>: \<open>a_0\<close> with one frame and \<open>b_0\<close> with thirty, and one label
  file. Images are stood for by numbers.\<close>

definition ex_fs :: "nat filesystem" where
  "ex_fs =
     \<lparr>listdir = [''data/a/0'' \<mapsto> [''0.png''],
                 ''data/b/0'' \<mapsto> map frame_file [0..<30],
                 ''meta'' \<mapsto> [''m.json'']],
      imread = (\<lambda>path. Some (length path)),
      json_load = (\<lambda>path.
         if path = ''meta/m.json''
         then Inr (JObj [(''a.mp4'', JObj [(''is_fake'', JInt 1)]),
                         (''b.mp4'', JObj [(''is_fake'', JInt 0)])])
         else Inl FileNotFoundError)\<rparr>"

definition ex_ops :: "(nat, nat) image_ops" where
  "ex_ops = \<lparr>cvtColor = (\<lambda>i. i), aug = (\<lambda>a b. Inr (a, b)),
             img_shape = (\<lambda>i. [224, 224, 3]), ToTensor = (\<lambda>i. i)\<rparr>"

definition ex_float :: "string \<Rightarrow> py_error + real" where
  "ex_float s = Inl ValueError"

definition ex_model :: "nat list list list \<Rightarrow> py_error + real" where
  "ex_model x = Inr (1 / 2)"

definition ex_ds :: "sampling \<Rightarrow> CustomDataset" where
  "ex_ds smp = \<lparr>ids = [''a_0'', ''b_0''], frames_path = ''data'',
                labels = [''a'' \<mapsto> 1, ''b'' \<mapsto> 0], sampling_of = smp\<rparr>"


text \<open>A label directory of two files that both name the record \<open>abc.mp4\<close>.\<close>

definition ex_label_fs :: "nat filesystem" where
  "ex_label_fs =
     \<lparr>listdir = [''meta'' \<mapsto> [''m1.json'', ''m2.json'']],
      imread = (\<lambda>path. None),
      json_load = (\<lambda>path.
         if path = ''meta/m1.json'' then Inr (JObj [(''abc.mp4'', JObj [(''is_fake'', JInt 0)])])
         else if path = ''meta/m2.json'' then Inr (JObj [(''abc.mp4'', JObj [(''is_fake'', JInt 1)])])
         else Inl FileNotFoundError)\<rparr>"

section \<open>Integer text: writing and reading back\<close>

lemma is_digit_digit_char: "d < 10 \<Longrightarrow> is_digit (digit_char d)"
  by (simp add: is_digit_def digit_char_def)

lemma digit_val_digit_char: "d < 10 \<Longrightarrow> digit_val (digit_char d) = d"
  by (simp add: digit_val_def digit_char_def)

lemma str_nat_digits: "\<forall>c \<in> set (str_nat n). is_digit c"
proof (induction n rule: str_nat.induct)
  case (1 n)
  show ?case
  proof (cases "n < 10")
    case True
    then show ?thesis by (subst str_nat.simps) (simp add: is_digit_digit_char)
  next
    case False
    with 1 show ?thesis by (subst str_nat.simps) (simp add: is_digit_digit_char)
  qed
qed

lemma str_nat_nonempty: "str_nat n \<noteq> []"
  by (subst str_nat.simps) simp

lemma parse_digits_append:
  "\<forall>c \<in> set xs. is_digit c \<Longrightarrow>
   parse_digits acc (xs @ ys) = (case parse_digits acc xs of None \<Rightarrow> None | Some a \<Rightarrow> parse_digits a ys)"
  by (induction xs arbitrary: acc) auto

lemma parse_digits_all: "\<forall>c \<in> set xs. is_digit c \<Longrightarrow> \<exists>a. parse_digits acc xs = Some a"
  by (induction xs arbitrary: acc) auto

lemma parse_digits_str_nat: "parse_digits 0 (str_nat n) = Some n"
proof (induction n rule: str_nat.induct)
  case (1 n)
  show ?case
  proof (cases "n < 10")
    case True
    then show ?thesis by (subst str_nat.simps) (simp add: is_digit_digit_char digit_val_digit_char)
  next
    case False
    then have ih: "parse_digits 0 (str_nat (n div 10)) = Some (n div 10)" using 1 by simp
    show ?thesis using False
      by (subst str_nat.simps)
         (simp add: parse_digits_append str_nat_digits ih is_digit_digit_char digit_val_digit_char)
  qed
qed

lemma is_digit_not_space: "is_digit c \<Longrightarrow> \<not> is_space c"
  by (auto simp: is_digit_def is_space_def)

lemma dropWhile_space_digits: "\<forall>c \<in> set xs. is_digit c \<Longrightarrow> dropWhile is_space xs = xs"
  by (cases xs) (auto simp: is_digit_not_space)

lemma strip_digits: "\<forall>c \<in> set xs. is_digit c \<Longrightarrow> strip xs = xs"
  by (simp add: strip_def dropWhile_space_digits)

lemma is_digit_not_sign: "is_digit c \<Longrightarrow> c \<noteq> CHR ''-'' \<and> c \<noteq> CHR ''+'' \<and> c \<noteq> CHR ''.''"
  by (auto simp: is_digit_def)

lemma py_int_str_nat: "py_int (str_nat n) = Inr (int n)"
proof -
  obtain c cs where s: "str_nat n = c # cs"
    using str_nat_nonempty [of n] by (cases "str_nat n") auto
  have d: "\<forall>x \<in> set (str_nat n). is_digit x" by (rule str_nat_digits)
  then have c: "is_digit c" using s by simp
  have "py_int (str_nat n) = (case parse_unsigned (c # cs) of None \<Rightarrow> Inl ValueError | Some n \<Rightarrow> Inr (int n))"
    using c is_digit_not_sign [OF c] d by (simp add: py_int_def strip_digits s)
  also have "parse_unsigned (c # cs) = Some n"
    using c parse_digits_str_nat [of n] by (simp add: parse_unsigned_def s)
  finally show ?thesis by simp
qed

lemma split_dot_0_digits: "\<forall>c \<in> set xs. is_digit c \<Longrightarrow> split_dot_0 (xs @ CHR ''.'' # ys) = xs"
  unfolding split_dot_0_def by (induction xs) (auto dest: is_digit_not_sign)

lemma stem_frame_file: "py_int (split_dot_0 (frame_file n)) = Inr (int n)"
  by (simp add: frame_file_def str_int_def split_dot_0_digits str_nat_digits py_int_str_nat)

lemma collect_map: "(\<And>x. x \<in> set xs \<Longrightarrow> f x = Inr (g x)) \<Longrightarrow> collect f xs = Inr (map g xs)"
  by (induction xs) auto

lemma collect_fail:
  "(\<And>x. x \<in> set as \<Longrightarrow> f x = Inr (g x)) \<Longrightarrow> f b = Inl e \<Longrightarrow> collect f (as @ b # cs) = Inl e"
  by (induction as) auto

section \<open>The frame sampler on a well-formed track\<close>

lemma sort_files_frame_files:
  assumes "sorted_wrt (<) ns"
  shows "sort_files (map frame_file ns) = Inr (map frame_file ns)"
proof -
  have c: "collect (\<lambda>x. py_int (split_dot_0 x)) (map frame_file ns) = Inr (map int ns)"
    by (induction ns) (simp_all add: stem_frame_file)
  have "sorted (map int ns)"
    using assms by (induction ns) (auto simp: less_imp_le)
  then have "sort (map int ns) = map int ns" by (rule sorted_sort_id)
  then show ?thesis
    by (simp add: sort_files_def c frame_file_def)
qed

lemma py_getitem_nat: "k < length xs \<Longrightarrow> py_getitem xs (int k) = Inr (xs ! k)"
  by (simp add: py_getitem_def)

lemma sample_index_bound:
  fixes T G N i j :: nat
  assumes "G \<le> T" "1 \<le> N" "i < N" "j < G"
  shows "i * ((T - G) div N) + j < T"
proof -
  have "i * ((T - G) div N) \<le> N * ((T - G) div N)"
    using assms by (simp add: mult_le_mono1)
  also have "\<dots> \<le> T - G" by simp
  finally show ?thesis using assms by linarith
qed

lemma sample_groups_eq:
  fixes smp :: sampling
  assumes srt: "sorted_wrt (<) ns"
    and g0: "0 \<le> group_size smp" and gT: "group_size smp \<le> int (length ns)"
    and n1: "1 \<le> num_groups smp"
  shows "sample_groups smp (map frame_file ns) =
         Inr (map (\<lambda>i. map (\<lambda>j. map frame_file ns !
                    (i * nat ((int (length (map frame_file ns)) - group_size smp) div num_groups smp) + j))
                   [0..<nat (group_size smp)])
              [0..<nat (num_groups smp)])"
proof -
  define fl where "fl = map frame_file ns"
  define T where "T = length ns"
  define G where "G = nat (group_size smp)"
  define N where "N = nat (num_groups smp)"
  define iv where "iv = (int T - group_size smp) div num_groups smp"
  have G: "group_size smp = int G" using g0 by (simp add: G_def)
  have N: "num_groups smp = int N" and Npos: "1 \<le> N" using n1 by (simp_all add: N_def)
  have GT: "G \<le> T" using gT by (simp add: G T_def)
  have iv: "iv = int ((T - G) div N)"
    using GT by (simp add: iv_def G N zdiv_int of_nat_diff)
  have inner: "collect (\<lambda>j. py_getitem fl (int i * iv + j)) (py_range (int G))
               = Inr (map (\<lambda>j. fl ! (i * nat iv + j)) [0..<G])" if "i < N" for i
  proof -
    have "collect (\<lambda>j. py_getitem fl (int i * iv + j)) (map int [0..<G])
          = Inr (map ((\<lambda>j. fl ! (i * nat iv + j)) \<circ> nat) (map int [0..<G]))"
    proof (rule collect_map)
      fix x assume "x \<in> set (map int [0..<G])"
      then obtain j where j: "x = int j" "j < G" by auto
      have b: "i * ((T - G) div N) + j < T"
        using GT Npos that j(2) by (rule sample_index_bound)
      have "int i * iv + x = int (i * ((T - G) div N) + j)" by (simp add: iv j)
      then have "py_getitem fl (int i * iv + x) = Inr (fl ! (i * ((T - G) div N) + j))"
        using b by (simp only: py_getitem_nat fl_def T_def length_map)
      then show "py_getitem fl (int i * iv + x) = Inr (((\<lambda>j. fl ! (i * nat iv + j)) \<circ> nat) x)"
        by (simp add: iv j)
    qed
    then show ?thesis by (simp add: py_range_def comp_def)
  qed
  have outer: "collect (\<lambda>i. collect (\<lambda>j. py_getitem fl (i * iv + j)) (py_range (int G))) (map int [0..<N])
        = Inr (map ((\<lambda>i. map (\<lambda>j. fl ! (i * nat iv + j)) [0..<G]) \<circ> nat) (map int [0..<N]))"
  proof (rule collect_map)
    fix x assume "x \<in> set (map int [0..<N])"
    then obtain i where i: "x = int i" "i < N" by auto
    show "collect (\<lambda>j. py_getitem fl (x * iv + j)) (py_range (int G))
          = Inr (((\<lambda>i. map (\<lambda>j. fl ! (i * nat iv + j)) [0..<G]) \<circ> nat) x)"
      using inner [OF i(2)] by (simp add: i)
  qed
  have "sample_groups smp fl
        = collect (\<lambda>i. collect (\<lambda>j. py_getitem fl (i * iv + j)) (py_range (int G))) (py_range (int N))"
    using Npos
    by (simp add: sample_groups_def fl_def sort_files_frame_files [OF srt] Let_def N G iv_def T_def)
  also have "\<dots> = Inr (map (\<lambda>i. map (\<lambda>j. fl ! (i * nat iv + j)) [0..<G]) [0..<N])"
    using outer by (simp add: py_range_def comp_def)
  finally show ?thesis
    by (simp add: fl_def iv_def T_def G_def N_def)
qed







section \<open>A track with fewer frames than a group\<close>

lemma sort_files_length: "sort_files listing = Inr file_names \<Longrightarrow> length file_names = length listing"
proof -
  have c: "collect f xs = Inr ys \<Longrightarrow> length ys = length xs" for f :: "string \<Rightarrow> py_error + int" and xs ys
    by (induction xs arbitrary: ys) (auto split: sum.splits)
  assume "sort_files listing = Inr file_names"
  then show ?thesis
    by (auto simp: sort_files_def split: sum.splits dest: c)
qed

lemma collect_length: "collect f xs = Inr ys \<Longrightarrow> length ys = length xs"
  by (induction xs arbitrary: ys) (auto split: sum.splits)

lemma py_getitem_past_end: "py_getitem xs (int (length xs)) = Inl IndexError"
  by (simp add: py_getitem_def)

lemma short_group_fails:
  assumes "length file_names < G"
  shows "collect (\<lambda>j. py_getitem file_names (0 * iv + j)) (py_range (int G)) = Inl IndexError"
proof -
  define T where "T = length file_names"
  have split: "[0..<G] = [0..<T] @ T # [Suc T..<G]"
    using assms unfolding T_def by (metis upt_conv_Cons upt_add_eq_append zero_le le_add_diff_inverse less_imp_le)
  have "collect (\<lambda>j. py_getitem file_names (0 * iv + j)) (map int [0..<T] @ int T # map int [Suc T..<G]) = Inl IndexError"
  proof (rule collect_fail [where g = "\<lambda>j. file_names ! nat j"])
    fix x assume "x \<in> set (map int [0..<T])"
    then show "py_getitem file_names (0 * iv + x) = Inr (file_names ! nat x)"
      by (auto simp: py_getitem_def T_def)
  next
    show "py_getitem file_names (0 * iv + int T) = Inl IndexError"
      by (simp add: T_def py_getitem_past_end)
  qed
  then show ?thesis by (simp add: py_range_def split)
qed

lemma sample_groups_short:
  assumes parse: "sort_files listing = Inr file_names"
    and short: "int (length listing) < group_size smp"
    and n1: "1 \<le> num_groups smp"
  shows "sample_groups smp listing = Inl IndexError"
proof -
  define G where "G = nat (group_size smp)"
  define N where "N = nat (num_groups smp)"
  define iv where "iv = (int (length file_names) - group_size smp) div num_groups smp"
  have len: "length file_names = length listing" using parse by (rule sort_files_length)
  have G: "group_size smp = int G" and lt: "length file_names < G"
    using short len by (simp_all add: G_def)
  have N: "[0..<N] = 0 # [1..<N]" using n1 by (simp add: N_def upt_conv_Cons)
  have "collect (\<lambda>i. collect (\<lambda>j. py_getitem file_names (i * iv + j)) (py_range (int G)))
          (py_range (num_groups smp)) = Inl IndexError"
    using short_group_fails [OF lt, of iv] by (simp add: py_range_def N N_def [symmetric])
  then show ?thesis
    using n1 by (simp add: sample_groups_def parse Let_def iv_def G)
qed

lemma infer_loop_abort:
  assumes "\<And>i. i \<in> set before \<Longrightarrow> \<exists>x y ident pr. getitem fs ops ds i = Inr (x, y, ident) \<and> model [x] = Inr pr"
    and "getitem fs ops ds k = Inl e"
  shows "infer_loop fs ops model ds res (before @ k # rest) = Inl e"
  using assms
proof (induction before arbitrary: res)
  case Nil
  then show ?case by simp
next
  case (Cons i before)
  obtain x y ident pr where "getitem fs ops ds i = Inr (x, y, ident)" "model [x] = Inr pr"
    using Cons.prems(1) [of i] by auto
  then show ?case using Cons by simp
qed


text \<open>The index error needs a group to fill: with no group configured the division raises
  first, and a negative group count leaves the loop empty, so nothing is fetched.\<close>

lemma short_track_without_groups:
  assumes "sort_files listing = Inr file_names"
  shows "num_groups smp = 0 \<Longrightarrow> sample_groups smp listing = Inl ZeroDivisionError"
    and "num_groups smp < 0 \<Longrightarrow> sample_groups smp listing = Inr []"
  using assms by (simp_all add: sample_groups_def py_range_def Let_def)

text \<open>
  C3, as the code has it. For a track whose frame names parse and whose frame count is
  strictly less than \<open>group_size\<close>, with at least one group configured, the sampler raises
  IndexError instead of returning frames. Nothing catches it: the dataset access for that
  track raises the same error, and an inference run that reaches the track (every earlier
  track having been scored) ends with that error and returns no result table, so the track
  is not skipped and the tracks after it are not processed.
\<close>

theorem short_track_aborts_run:
  assumes k: "k < length track_ids"
    and ident: "py_split CHR ''_'' (track_ids ! k) = [video, face]"
    and ls: "listdir fs (path_join data_path [video, face]) = Some listing"
    and parse: "sort_files listing = Inr file_names"
    and short: "int (length listing) < group_size smp"
    and n1: "1 \<le> num_groups smp"
    and lbl: "get_labels fs float_str metadata_path = Inr lbls"
    and ds: "ds = \<lparr>ids = track_ids, frames_path = data_path, labels = lbls, sampling_of = smp\<rparr>"
    and earlier: "\<forall>i < k. \<exists>x y ident pr. getitem fs ops ds (int i) = Inr (x, y, ident) \<and> model [x] = Inr pr"
  shows "get_frame_names fs smp (path_join data_path [video, face]) = Inl IndexError
       \<and> getitem fs ops ds (int k) = Inl IndexError
       \<and> infer fs ops float_str model track_ids data_path metadata_path smp = Inl IndexError"
proof -
  have a: "get_frame_names fs smp (path_join data_path [video, face]) = Inl IndexError"
    using sample_groups_short [OF parse short n1] by (simp add: get_frame_names_def os_listdir_def ls)
  have b: "getitem fs ops ds (int k) = Inl IndexError"
    using k a by (simp add: getitem_def ds py_getitem_nat ident unpack2_def)
  have split: "[0..<length track_ids] = [0..<k] @ k # [Suc k..<length track_ids]"
    using k by (metis upt_conv_Cons upt_add_eq_append zero_le le_add_diff_inverse less_imp_le)
  have "infer_loop fs ops model ds Map.empty (map int [0..<k] @ int k # map int [Suc k..<length track_ids]) = Inl IndexError"
  proof (rule infer_loop_abort [OF _ b])
    fix i assume "i \<in> set (map int [0..<k])"
    then obtain j where "i = int j" "j < k" by auto
    then show "\<exists>x y ident pr. getitem fs ops ds i = Inr (x, y, ident) \<and> model [x] = Inr pr"
      using earlier by simp
  qed
  then have c: "infer fs ops float_str model track_ids data_path metadata_path smp = Inl IndexError"
    by (simp add: infer_def lbl Let_def py_range_def split ds)
  from a b c show ?thesis by blast
qed

theorem short_track_aborts_run_witness:
  "sort_files [''0.png''] = Inr [''0.png'']
   \<and> get_frame_names ex_fs \<lparr>num_groups = 2, group_size = 2\<rparr> ''data/a/0'' = Inl IndexError
   \<and> infer ex_fs ex_ops ex_float ex_model [''b_0'', ''a_0''] ''data'' ''meta''
        \<lparr>num_groups = 2, group_size = 2\<rparr> = Inl IndexError"
proof -
  let ?smp = "\<lparr>num_groups = 2, group_size = 2\<rparr>"
  let ?lbls = "[''a'' \<mapsto> 1::real, ''b'' \<mapsto> 0]"
  let ?ds = "\<lparr>ids = [''b_0'', ''a_0''], frames_path = ''data'', labels = ?lbls, sampling_of = ?smp\<rparr>"
  have h1: "1 < length [''b_0'', ''a_0'']" by simp
  have h2: "py_split CHR ''_'' ([''b_0'', ''a_0''] ! 1) = [''a'', ''0'']" by simp
  have pj: "path_join ''data'' [''a'', ''0''] = ''data/a/0''" by (simp add: path_join_def path_join2_def)
  have h3: "listdir ex_fs (path_join ''data'' [''a'', ''0'']) = Some [''0.png'']"
    by (simp add: pj ex_fs_def)
  have h4: "sort_files [''0.png''] = Inr [''0.png'']" by code_simp
  have h5: "int (length [''0.png'']) < group_size ?smp" by simp
  have h6: "1 \<le> num_groups ?smp" by simp
  have h7: "get_labels ex_fs ex_float ''meta'' = Inr ?lbls"
    by (simp add: get_labels_def os_listdir_def ex_fs_def path_join_def path_join2_def split_dot_0_def)
  have "\<not> isl (getitem ex_fs ex_ops ?ds 0)" by code_simp
  then obtain x y ident where g: "getitem ex_fs ex_ops ?ds 0 = Inr (x, y, ident)"
    by (cases "getitem ex_fs ex_ops ?ds 0") auto
  have h9: "\<forall>i<1::nat. \<exists>x y ident pr. getitem ex_fs ex_ops ?ds (int i) = Inr (x, y, ident)
              \<and> ex_model [x] = Inr pr"
  proof (intro allI impI)
    fix i :: nat assume "i < 1"
    then have i: "i = 0" by simp
    have g': "getitem ex_fs ex_ops ?ds (int 0) = Inr (x, y, ident)" using g by simp
    have em: "ex_model [x] = Inr (1 / 2)" by (simp add: ex_model_def)
    show "\<exists>x y ident pr. getitem ex_fs ex_ops ?ds (int i) = Inr (x, y, ident)
              \<and> ex_model [x] = Inr pr"
      unfolding i using g' em by blast
  qed
  show ?thesis
    using short_track_aborts_run [OF h1 h2 h3 h4 h5 h6 h7 refl h9] h4 by (simp add: pj)
qed

text \<open>
  C3 as stated fails on the small data set: with the one-frame track \<open>a_0\<close> first, the run
  ends with IndexError, although the run over the remaining track \<open>b_0\<close> alone returns a
  table.
\<close>

theorem short_track_not_skipped:
  "infer ex_fs ex_ops ex_float ex_model [''a_0'', ''b_0''] ''data'' ''meta''
        \<lparr>num_groups = 2, group_size = 2\<rparr> = Inl IndexError
   \<and> \<not> isl (infer ex_fs ex_ops ex_float ex_model [''b_0''] ''data'' ''meta''
        \<lparr>num_groups = 2, group_size = 2\<rparr>)"
proof -
  let ?r = "infer ex_fs ex_ops ex_float ex_model [''a_0'', ''b_0''] ''data'' ''meta''
        \<lparr>num_groups = 2, group_size = 2\<rparr>"
  have "isl ?r \<and> projl ?r = IndexError" by code_simp
  then have "?r = Inl IndexError" by (cases ?r) auto
  moreover have "\<not> isl (infer ex_fs ex_ops ex_float ex_model [''b_0''] ''data'' ''meta''
        \<lparr>num_groups = 2, group_size = 2\<rparr>)" by code_simp
  ultimately show ?thesis by blast
qed


section \<open>No groups configured\<close>

text \<open>
  C4, as the code has it. When \<open>num_groups\<close> is 0 and the frame names of the listed
  directory parse, the sampler raises ZeroDivisionError: the interval is computed before
  the loop over the groups is entered, and no sequence is returned.
\<close>

theorem zero_groups_division_error:
  assumes "listdir fs folder_path = Some listing"
    and "sort_files listing = Inr file_names"
    and "num_groups smp = 0"
  shows "get_frame_names fs smp folder_path = Inl ZeroDivisionError"
  using assms by (simp add: get_frame_names_def os_listdir_def sample_groups_def)

theorem zero_groups_division_error_witness:
  "sort_files [''0.png''] = Inr [''0.png'']
   \<and> get_frame_names ex_fs \<lparr>num_groups = 0, group_size = 1\<rparr> ''data/a/0'' = Inl ZeroDivisionError"
proof -
  have h1: "listdir ex_fs ''data/a/0'' = Some [''0.png'']" by (simp add: ex_fs_def)
  have h2: "sort_files [''0.png''] = Inr [''0.png'']" by code_simp
  have h3: "num_groups \<lparr>num_groups = 0, group_size = 1\<rparr> = 0" by simp
  show ?thesis using zero_groups_division_error [OF h1 h2 h3] h2 by simp
qed


text \<open>
  C4 as stated fails on the thirty-frame track: the result is the division error, not the
  empty sequence.
\<close>

theorem zero_groups_not_empty_sequence:
  "get_frame_names ex_fs \<lparr>num_groups = 0, group_size = 2\<rparr> ''data/b/0'' = Inl ZeroDivisionError
   \<and> get_frame_names ex_fs \<lparr>num_groups = 0, group_size = 2\<rparr> ''data/b/0'' \<noteq> Inr []"
  by code_simp



section \<open>Frames per group in an assembled sample\<close>

lemma collect_either:
  assumes "\<forall>x \<in> set xs. (\<exists>y. f x = Inr y) \<or> f x = Inl e"
    and "\<exists>x \<in> set xs. f x = Inl e"
  shows "collect f xs = Inl e"
  using assms
proof (induction xs)
  case Nil
  then show ?case by simp
next
  case (Cons x xs)
  show ?case
  proof (cases "f x")
    case (Inl e')
    then show ?thesis using Cons.prems(1) by auto
  next
    case (Inr y)
    then have "\<exists>x \<in> set xs. f x = Inl e" using Cons.prems(2) by auto
    then have "collect f xs = Inl e" using Cons.IH Cons.prems(1) by simp
    then show ?thesis using Inr by simp
  qed
qed

lemma read_frame_frame_file:
  "read_frame fs ops folder (frame_file n) =
     (if readable fs folder n then Inr (track_frame fs ops folder n) else Inl CvError)"
  by (auto simp: read_frame_def readable_def track_frame_def)

lemma read_volume:
  "collect (read_frame fs ops folder) (map frame_file ms) =
     (if \<forall>n \<in> set ms. readable fs folder n then Inr (map (track_frame fs ops folder) ms)
      else Inl CvError)"
proof (cases "\<forall>n \<in> set ms. readable fs folder n")
  case True
  then have "collect (read_frame fs ops folder) (map frame_file ms)
             = Inr (map (track_frame fs ops folder \<circ> (\<lambda>f. nat (projr (py_int (split_dot_0 f))))) (map frame_file ms))"
    by (intro collect_map) (auto simp: read_frame_frame_file stem_frame_file)
  then show ?thesis using True by (simp add: comp_def stem_frame_file)
next
  case False
  have "collect (read_frame fs ops folder) (map frame_file ms) = Inl CvError"
    by (rule collect_either) (use False in \<open>auto simp: read_frame_frame_file\<close>)
  then show ?thesis using False by simp
qed

lemma load_group_pair:
  assumes au: "aug ops (track_frame fs ops folder (ms ! 0)) (track_frame fs ops folder (ms ! 1)) = Inr (t, t0)"
    and sh: "img_shape ops t0 = img_shape ops t"
    and len: "2 \<le> length ms"
    and rd: "\<forall>n \<in> set ms. readable fs folder n"
  shows "load_group fs ops folder (map frame_file ms) = Inr [t, t0]"
proof -
  have ne: "ms \<noteq> []" using len by auto
  have "collect (read_frame fs ops folder) (map frame_file ms) = Inr (map (track_frame fs ops folder) ms)"
    using rd by (simp add: read_volume)
  moreover have "py_getitem (map (track_frame fs ops folder) ms) 0 = Inr (track_frame fs ops folder (ms ! 0))"
    using len by (simp add: py_getitem_def ne)
  moreover have "py_getitem (map (track_frame fs ops folder) ms) 1 = Inr (track_frame fs ops folder (ms ! 1))"
    using len by (simp add: py_getitem_def)
  ultimately show ?thesis
    by (simp only: load_group_def sum.case au prod.case) (simp add: np_stack_def sh)
qed

lemma load_group_unreadable:
  assumes "\<not> (\<forall>n \<in> set ms. readable fs folder n)"
  shows "load_group fs ops folder (map frame_file ms) = Inl CvError"
proof -
  have "collect (read_frame fs ops folder) (map frame_file ms) = Inl CvError"
    using assms by (simp add: read_volume)
  then show ?thesis by (simp add: load_group_def)
qed

lemma load_group_single:
  assumes "readable fs folder n"
  shows "load_group fs ops folder [frame_file n] = Inl IndexError"
  using assms read_volume [of fs ops folder "[n]"]
  by (simp add: load_group_def py_getitem_def)

lemma collect_map_index:
  "(\<And>i. i \<in> set ixs \<Longrightarrow> f (h i) = Inr (g i)) \<Longrightarrow> collect f (map h ixs) = Inr (map g ixs)"
  by (induction ixs) auto

lemma sampled_groups_as_indices:
  fixes smp :: sampling
  assumes srt: "sorted_wrt (<) ns"
    and g0: "0 \<le> group_size smp" and gT: "group_size smp \<le> int (length ns)"
    and n1: "1 \<le> num_groups smp"
    and iv: "iv = nat ((int (length ns) - group_size smp) div num_groups smp)"
  shows "sample_groups smp (map frame_file ns) =
         Inr (map (\<lambda>i. map frame_file (map (\<lambda>j. ns ! (i * iv + j)) [0..<nat (group_size smp)]))
              [0..<nat (num_groups smp)])"
proof -
  have k: "iv = (length ns - nat (group_size smp)) div nat (num_groups smp)"
    using g0 n1 gT by (simp add: iv nat_div_distrib nat_diff_distrib)
  have bound: "i * iv + j < length ns" if "i < nat (num_groups smp)" "j < nat (group_size smp)" for i j
  proof -
    have "nat (group_size smp) \<le> length ns" "1 \<le> nat (num_groups smp)" using gT n1 by simp_all
    from sample_index_bound [OF this that] show ?thesis by (simp add: k)
  qed
  show ?thesis
    unfolding sample_groups_eq [OF srt g0 gT n1]
    using bound by (simp add: iv)
qed

lemma np_stack_pairs:
  assumes "0 < n" and "\<And>i. i < n \<Longrightarrow> shape_of (fst (pr i)) = shp"
  shows "np_stack (stacked_shape shape_of) (map (\<lambda>i. [fst (pr i), snd (pr i)]) [0..<n])
         = Inr (map (\<lambda>i. [fst (pr i), snd (pr i)]) [0..<n])"
proof -
  have s: "stacked_shape shape_of [fst (pr i), snd (pr i)] = 2 # shp" if "i < n" for i
    using assms(2) [OF that] by (simp add: stacked_shape_def)
  obtain a rest where ar: "map (\<lambda>i. [fst (pr i), snd (pr i)]) [0..<n] = a # rest"
    using assms(1) by (cases "map (\<lambda>i. [fst (pr i), snd (pr i)]) [0..<n]") auto
  have all: "\<forall>b \<in> set (a # rest). stacked_shape shape_of b = 2 # shp"
    unfolding ar [symmetric] using s by auto
  then have "list_all (\<lambda>b. stacked_shape shape_of b = stacked_shape shape_of a) rest"
    by (simp add: list_all_iff)
  then show ?thesis by (simp add: np_stack_def ar)
qed

lemma getitem_unfold:
  assumes k: "k < length (ids ds)"
    and ident: "py_split CHR ''_'' (ids ds ! k) = [video, face]"
    and folder: "folder = path_join (frames_path ds) [video, face]"
    and names: "get_frame_names fs (sampling_of ds) folder = Inr frame_names"
  shows "getitem fs ops ds (int k) =
     (case collect (load_group fs ops folder) frame_names of
        Inl e \<Rightarrow> Inl e
      | Inr item \<Rightarrow>
          (case np_stack (stacked_shape (img_shape ops)) item of
             Inl e \<Rightarrow> Inl e
           | Inr sample \<Rightarrow>
               (case labels ds video of
                  None \<Rightarrow> Inl KeyError
                | Some y \<Rightarrow> Inr (to_tensor ops sample, y, ids ds ! k))))"
  using k names
  by (simp add: getitem_def py_getitem_nat ident unpack2_def folder [symmetric])


text \<open>
  C10. Take a track \<open>video_face\<close> of the dataset whose folder holds the frames \<open>n.png\<close> of
  strictly ascending indices \<open>ns\<close>, at least \<open>group_size\<close> of them, with at least one group
  configured, an augmentation that returns two images of one shape, and a label for the
  video. For every \<open>group_size\<close> greater than 2: the call succeeds exactly when every frame
  of every sampled group can be read (an unreadable one, the third and later ones included,
  makes it raise), and the sample it returns has \<open>num_groups\<close> groups of exactly two frames,
  the augmented first and second frame of the group; the later frames are not part of it.
  For \<open>group_size\<close> equal to 1 (first frame readable) the call raises IndexError.
\<close>

theorem getitem_keeps_two_frames:
  assumes k: "k < length (ids ds)"
    and ident: "py_split CHR ''_'' (ids ds ! k) = [video, face]"
    and folder: "folder = path_join (frames_path ds) [video, face]"
    and ls: "listdir fs folder = Some (map frame_file ns)"
    and srt: "sorted_wrt (<) ns"
    and gT: "group_size (sampling_of ds) \<le> int (length ns)"
    and n1: "1 \<le> num_groups (sampling_of ds)"
    and iv: "iv = nat ((int (length ns) - group_size (sampling_of ds)) div num_groups (sampling_of ds))"
    and au: "\<forall>a b. \<exists>t t0. aug ops a b = Inr (t, t0) \<and> img_shape ops t = shp \<and> img_shape ops t0 = shp"
    and lb: "labels ds video = Some y"
  shows "(2 < group_size (sampling_of ds) \<longrightarrow>
           (if \<forall>i < nat (num_groups (sampling_of ds)). \<forall>j < nat (group_size (sampling_of ds)).
                  readable fs folder (ns ! (i * iv + j))
            then \<exists>x. getitem fs ops ds (int k) = Inr (x, y, ids ds ! k)
                   \<and> length x = nat (num_groups (sampling_of ds))
                   \<and> (\<forall>i < nat (num_groups (sampling_of ds)). \<exists>t t0.
                         aug ops (track_frame fs ops folder (ns ! (i * iv)))
                                 (track_frame fs ops folder (ns ! (i * iv + 1))) = Inr (t, t0)
                         \<and> x ! i = [ToTensor ops t, ToTensor ops t0])
            else getitem fs ops ds (int k) = Inl CvError))
       \<and> (group_size (sampling_of ds) = 1 \<and> readable fs folder (ns ! 0) \<longrightarrow>
            getitem fs ops ds (int k) = Inl IndexError)"
proof (intro conjI impI)
  define G where "G = nat (group_size (sampling_of ds))"
  define N where "N = nat (num_groups (sampling_of ds))"
  define ms where "ms = (\<lambda>i. map (\<lambda>j. ns ! (i * iv + j)) [0..<G])"
  define frame_names where "frame_names = map (\<lambda>i. map frame_file (ms i)) [0..<N]"
  have Npos: "0 < N" using n1 by (simp add: N_def)
  have names: "get_frame_names fs (sampling_of ds) folder = Inr frame_names"
    if "0 \<le> group_size (sampling_of ds)"
    using sampled_groups_as_indices [OF srt that gT n1 iv]
    by (simp add: get_frame_names_def os_listdir_def ls frame_names_def ms_def G_def N_def)
  {
    assume big: "2 < group_size (sampling_of ds)"
    then have G2: "2 \<le> G" by (simp add: G_def)
    have len: "2 \<le> length (ms i)" for i using G2 by (simp add: ms_def)
    have ms0: "ms i ! 0 = ns ! (i * iv)" and ms1: "ms i ! 1 = ns ! (i * iv + 1)" for i
      using G2 by (simp_all add: ms_def)
    have gi: "getitem fs ops ds (int k) =
       (case collect (load_group fs ops folder) frame_names of
          Inl e \<Rightarrow> Inl e
        | Inr item \<Rightarrow>
            (case np_stack (stacked_shape (img_shape ops)) item of
               Inl e \<Rightarrow> Inl e
             | Inr sample \<Rightarrow> Inr (to_tensor ops sample, y, ids ds ! k)))"
    proof -
      have "0 \<le> group_size (sampling_of ds)" using big by simp
      from getitem_unfold [OF k ident folder names [OF this], where ops = ops]
      show ?thesis by (simp add: lb split: sum.split)
    qed
    define pr where "pr = (\<lambda>i. projr (aug ops (track_frame fs ops folder (ns ! (i * iv)))
                                         (track_frame fs ops folder (ns ! (i * iv + 1)))))"
    have pr: "aug ops (track_frame fs ops folder (ns ! (i * iv)))
                      (track_frame fs ops folder (ns ! (i * iv + 1))) = Inr (fst (pr i), snd (pr i))
              \<and> img_shape ops (fst (pr i)) = shp \<and> img_shape ops (snd (pr i)) = shp" for i
      using au [rule_format, of "track_frame fs ops folder (ns ! (i * iv))"
                                "track_frame fs ops folder (ns ! (i * iv + 1))"]
      by (auto simp: pr_def)
    have grp_ok: "load_group fs ops folder (map frame_file (ms i)) = Inr [fst (pr i), snd (pr i)]"
      if "\<forall>n \<in> set (ms i). readable fs folder n" for i
    proof -
      have a: "aug ops (track_frame fs ops folder (ms i ! 0)) (track_frame fs ops folder (ms i ! 1))
               = Inr (fst (pr i), snd (pr i))"
        unfolding ms0 ms1 using pr by blast
      have b: "img_shape ops (snd (pr i)) = img_shape ops (fst (pr i))" by (simp add: pr)
      show ?thesis by (rule load_group_pair [OF a b len that])
    qed
    show "if \<forall>i < nat (num_groups (sampling_of ds)). \<forall>j < nat (group_size (sampling_of ds)).
                  readable fs folder (ns ! (i * iv + j))
          then \<exists>x. getitem fs ops ds (int k) = Inr (x, y, ids ds ! k)
                   \<and> length x = nat (num_groups (sampling_of ds))
                   \<and> (\<forall>i < nat (num_groups (sampling_of ds)). \<exists>t t0.
                         aug ops (track_frame fs ops folder (ns ! (i * iv)))
                                 (track_frame fs ops folder (ns ! (i * iv + 1))) = Inr (t, t0)
                         \<and> x ! i = [ToTensor ops t, ToTensor ops t0])
          else getitem fs ops ds (int k) = Inl CvError"
    proof (cases "\<forall>i < N. \<forall>j < G. readable fs folder (ns ! (i * iv + j))")
      case True
      then have rd: "\<forall>n \<in> set (ms i). readable fs folder n" if "i < N" for i
        using that by (auto simp: ms_def)
      define item where "item = map (\<lambda>i. [fst (pr i), snd (pr i)]) [0..<N]"
      have "collect (load_group fs ops folder) frame_names = Inr item"
        unfolding frame_names_def item_def
        by (rule collect_map_index) (simp add: grp_ok rd)
      moreover have "np_stack (stacked_shape (img_shape ops)) item = Inr item"
        unfolding item_def by (rule np_stack_pairs [OF Npos]) (simp add: pr)
      ultimately have res: "getitem fs ops ds (int k) = Inr (to_tensor ops item, y, ids ds ! k)"
        by (simp add: gi)
      have "length (to_tensor ops item) = N" by (simp add: to_tensor_def item_def)
      moreover have "to_tensor ops item ! i = [ToTensor ops (fst (pr i)), ToTensor ops (snd (pr i))]"
        if "i < N" for i using that by (simp add: to_tensor_def item_def)
      ultimately have "\<exists>x. getitem fs ops ds (int k) = Inr (x, y, ids ds ! k)
                   \<and> length x = N
                   \<and> (\<forall>i < N. \<exists>t t0.
                         aug ops (track_frame fs ops folder (ns ! (i * iv)))
                                 (track_frame fs ops folder (ns ! (i * iv + 1))) = Inr (t, t0)
                         \<and> x ! i = [ToTensor ops t, ToTensor ops t0])"
        using res pr by blast
      then show ?thesis using True by (simp add: N_def G_def)
    next
      case False
      then obtain i j where ij: "i < N" "j < G" "\<not> readable fs folder (ns ! (i * iv + j))" by blast
      then have bad: "\<not> (\<forall>n \<in> set (ms i). readable fs folder n)" by (auto simp: ms_def)
      have "collect (load_group fs ops folder) frame_names = Inl CvError"
      proof (rule collect_either)
        show "\<forall>g \<in> set frame_names. (\<exists>v. load_group fs ops folder g = Inr v)
                                    \<or> load_group fs ops folder g = Inl CvError"
        proof
          fix g assume "g \<in> set frame_names"
          then obtain i' where g: "g = map frame_file (ms i')" by (auto simp: frame_names_def)
          show "(\<exists>v. load_group fs ops folder g = Inr v) \<or> load_group fs ops folder g = Inl CvError"
            using grp_ok [of i'] load_group_unreadable [of "ms i'" fs folder ops] unfolding g by blast
        qed
        have "map frame_file (ms i) \<in> set frame_names" using ij(1) by (simp add: frame_names_def)
        then show "\<exists>g \<in> set frame_names. load_group fs ops folder g = Inl CvError"
          using load_group_unreadable [OF bad] by blast
      qed
      then have "getitem fs ops ds (int k) = Inl CvError" by (simp add: gi)
      then show ?thesis using False by (simp add: N_def G_def)
    qed
  }
  {
    assume one: "group_size (sampling_of ds) = 1 \<and> readable fs folder (ns ! 0)"
    then have G1: "G = 1" by (simp add: G_def)
    have N: "[0..<N] = 0 # [1..<N]" using Npos by (simp add: upt_conv_Cons)
    have "frame_names = [frame_file (ns ! 0)] # map (\<lambda>i. map frame_file (ms i)) [1..<N]"
      by (simp add: frame_names_def N) (simp add: ms_def G1)
    then have "collect (load_group fs ops folder) frame_names = Inl IndexError"
      using one by (simp add: load_group_single)
    moreover have "0 \<le> group_size (sampling_of ds)" using one by simp
    ultimately show "getitem fs ops ds (int k) = Inl IndexError"
      using getitem_unfold [OF k ident folder names, where ops = ops] by simp
  }
qed

lemma ex_readable: "readable ex_fs folder n"
  by (simp add: readable_def ex_fs_def)

theorem getitem_keeps_two_frames_witness:
  "(\<exists>x. getitem ex_fs ex_ops (ex_ds \<lparr>num_groups = 2, group_size = 3\<rparr>) 1 = Inr (x, 0, ''b_0'')
        \<and> length x = 2 \<and> length (x ! 0) = 2 \<and> length (x ! 1) = 2)
   \<and> getitem ex_fs ex_ops (ex_ds \<lparr>num_groups = 2, group_size = 1\<rparr>) 1 = Inl IndexError"
proof -
  have h1: "1 < length (ids (ex_ds smp))" for smp by (simp add: ex_ds_def)
  have h2: "py_split CHR ''_'' (ids (ex_ds smp) ! 1) = [''b'', ''0'']" for smp
    by (simp add: ex_ds_def)
  have h3: "''data/b/0'' = path_join (frames_path (ex_ds smp)) [''b'', ''0'']" for smp
    by (simp add: ex_ds_def path_join_def path_join2_def)
  have h4: "listdir ex_fs ''data/b/0'' = Some (map frame_file [0..<30])" by (simp add: ex_fs_def)
  have h5: "sorted_wrt (<) [0..<30::nat]" by (simp add: sorted_wrt_upt)
  have h9: "\<forall>a b. \<exists>t t0. aug ex_ops a b = Inr (t, t0)
              \<and> img_shape ex_ops t = [224, 224, 3] \<and> img_shape ex_ops t0 = [224, 224, 3]"
    by (simp add: ex_ops_def)
  have h10: "labels (ex_ds smp) ''b'' = Some 0" for smp by (simp add: ex_ds_def)
  have three: "\<exists>x. getitem ex_fs ex_ops (ex_ds \<lparr>num_groups = 2, group_size = 3\<rparr>) 1 = Inr (x, 0, ''b_0'')
        \<and> length x = 2 \<and> length (x ! 0) = 2 \<and> length (x ! 1) = 2"
  proof -
    let ?ds = "ex_ds \<lparr>num_groups = 2, group_size = 3\<rparr>"
    have h6: "group_size (sampling_of ?ds) \<le> int (length [0..<30::nat])" by (simp add: ex_ds_def)
    have h7: "1 \<le> num_groups (sampling_of ?ds)" by (simp add: ex_ds_def)
    have h8: "13 = nat ((int (length [0..<30::nat]) - group_size (sampling_of ?ds)) div num_groups (sampling_of ?ds))"
      by (simp add: ex_ds_def)
    have "2 < group_size (sampling_of ?ds)" by (simp add: ex_ds_def)
    with getitem_keeps_two_frames [OF h1 h2 h3 h4 h5 h6 h7 h8 h9 h10]
    have "\<exists>x. getitem ex_fs ex_ops ?ds (int 1) = Inr (x, 0, ids ?ds ! 1)
            \<and> length x = nat (num_groups (sampling_of ?ds))
            \<and> (\<forall>i < nat (num_groups (sampling_of ?ds)). \<exists>t t0.
                   aug ex_ops (track_frame ex_fs ex_ops ''data/b/0'' ([0..<30] ! (i * 13)))
                              (track_frame ex_fs ex_ops ''data/b/0'' ([0..<30] ! (i * 13 + 1))) = Inr (t, t0)
                   \<and> x ! i = [ToTensor ex_ops t, ToTensor ex_ops t0])"
      by (simp only: ex_readable simp_thms if_True)
    then obtain x where x: "getitem ex_fs ex_ops ?ds (int 1) = Inr (x, 0, ids ?ds ! 1)"
        "length x = nat (num_groups (sampling_of ?ds))"
        "\<forall>i < nat (num_groups (sampling_of ?ds)). \<exists>t t0. x ! i = [ToTensor ex_ops t, ToTensor ex_ops t0]"
      by blast
    have n: "nat (num_groups (sampling_of ?ds)) = 2" by (simp add: ex_ds_def)
    have "\<exists>t t0. x ! 0 = [ToTensor ex_ops t, ToTensor ex_ops t0]"
         "\<exists>t t0. x ! 1 = [ToTensor ex_ops t, ToTensor ex_ops t0]"
      using x(3) unfolding n by simp_all
    then have "length (x ! 0) = 2" "length (x ! 1) = 2" by auto
    then show ?thesis using x(1,2) by (auto simp: ex_ds_def)
  qed
  have one: "getitem ex_fs ex_ops (ex_ds \<lparr>num_groups = 2, group_size = 1\<rparr>) 1 = Inl IndexError"
  proof -
    let ?ds = "ex_ds \<lparr>num_groups = 2, group_size = 1\<rparr>"
    have h6: "group_size (sampling_of ?ds) \<le> int (length [0..<30::nat])" by (simp add: ex_ds_def)
    have h7: "1 \<le> num_groups (sampling_of ?ds)" by (simp add: ex_ds_def)
    have h8: "14 = nat ((int (length [0..<30::nat]) - group_size (sampling_of ?ds)) div num_groups (sampling_of ?ds))"
      by (simp add: ex_ds_def)
    have g: "group_size (sampling_of ?ds) = 1 \<and> readable ex_fs ''data/b/0'' ([0..<30] ! 0)"
      by (simp add: ex_ds_def ex_readable)
    show ?thesis
      using getitem_keeps_two_frames [OF h1 h2 h3 h4 h5 h6 h7 h8 h9 h10] g by simp
  qed
  from three one show ?thesis by blast
qed



section \<open>The label resolver: last write wins\<close>

lemma label_items_entries:
  assumes "\<forall>r \<in> set kvs. binary_record r"
  shows "label_items float_str m kvs = Inr (m ++ map_of (rev (map record_entry kvs)))"
  using assms
proof (induction kvs arbitrary: m)
  case Nil
  then show ?case by simp
next
  case (Cons r kvs)
  obtain name details where r: "r = (name, details)" by (cases r)
  have b: "binary_record (name, details)" using Cons.prems r by simp
  then obtain y where y: "py_get_key details ''is_fake'' = Inr (JInt y)"
    by (auto simp: binary_record_def)
  have e: "record_entry (name, details) = (split_dot_0 name, of_int y)"
    by (simp add: record_entry_def y)
  have "label_items float_str m (r # kvs) = label_items float_str (m(split_dot_0 name \<mapsto> of_int y)) kvs"
    by (simp add: r y)
  also have "\<dots> = Inr (m(split_dot_0 name \<mapsto> of_int y) ++ map_of (rev (map record_entry kvs)))"
    using Cons by simp
  also have "m(split_dot_0 name \<mapsto> of_int y) ++ map_of (rev (map record_entry kvs))
             = m ++ map_of (rev (map record_entry (r # kvs)))"
    by (simp add: r e map_add_upd_left fun_eq_iff map_add_def split: option.splits)
  finally show ?case .
qed

lemma label_files_entries:
  assumes "\<forall>f \<in> set files. \<exists>kvs. json_load fs (path_join labels_path [f]) = Inr (JObj kvs)"
    and "\<forall>r \<in> set (all_records fs labels_path files). binary_record r"
  shows "label_files fs float_str labels_path m files =
         Inr (m ++ map_of (rev (map record_entry (all_records fs labels_path files))))"
  using assms
proof (induction files arbitrary: m)
  case Nil
  then show ?case by (simp add: all_records_def)
next
  case (Cons f files)
  obtain kvs where kvs: "json_load fs (path_join labels_path [f]) = Inr (JObj kvs)"
    using Cons.prems(1) by auto
  have split: "all_records fs labels_path (f # files) = kvs @ all_records fs labels_path files"
    by (simp add: all_records_def kvs)
  have b1: "\<forall>r \<in> set kvs. binary_record r" and b2: "\<forall>r \<in> set (all_records fs labels_path files). binary_record r"
    using Cons.prems(2) by (simp_all add: split)
  have "label_files fs float_str labels_path m (f # files)
        = label_files fs float_str labels_path (m ++ map_of (rev (map record_entry kvs))) files"
    by (simp add: kvs label_items_entries [OF b1])
  also have "\<dots> = Inr ((m ++ map_of (rev (map record_entry kvs)))
                       ++ map_of (rev (map record_entry (all_records fs labels_path files))))"
    using Cons.IH [OF _ b2] Cons.prems(1) by simp
  finally show ?case by (simp add: split)
qed

lemma map_of_rev_last:
  assumes "\<forall>r \<in> set after. fst r \<noteq> k"
  shows "map_of (rev (before @ (k, v) # after)) k = Some v"
proof -
  have "map_of (rev after) k = None"
    using assms by (auto simp: map_of_eq_None_iff)
  then show ?thesis by (simp add: map_add_def)
qed

lemma all_records_append:
  "all_records fs lp (fb @ f # fa) =
     all_records fs lp fb @ file_records (json_load fs (path_join lp [f])) @ all_records fs lp fa"
  by (simp add: all_records_def)

lemma record_entry_binary:
  "binary_record r \<Longrightarrow> snd (record_entry r) = 0 \<or> snd (record_entry r) = 1"
  by (auto simp: binary_record_def record_entry_def)


text \<open>
  C9. For a label directory whose files all hold an object and whose records all carry
  \<open>is_fake\<close> 0 or 1, the resolver returns a mapping whose keys are exactly the record names'
  prefixes before the first dot and whose values are 0.0 or 1.0. A key is mapped to the
  label of its last record in visiting order: the record of a file \<open>f\<close> decides whenever no
  later record of \<open>f\<close> and no record of a file listed after \<open>f\<close> has the same prefix, whatever
  the files listed before \<open>f\<close> say.
\<close>

theorem get_labels_last_write_wins:
  assumes dir: "listdir fs labels_path = Some files"
    and objs: "\<forall>f \<in> set files. \<exists>kvs. json_load fs (path_join labels_path [f]) = Inr (JObj kvs)"
    and bin: "\<forall>r \<in> set (all_records fs labels_path files). binary_record r"
  shows "\<exists>m. get_labels fs float_str labels_path = Inr m
     \<and> dom m = (\<lambda>r. split_dot_0 (fst r)) ` set (all_records fs labels_path files)
     \<and> ran m \<subseteq> {0, 1}
     \<and> (\<forall>fb f fa rb name details ra b.
          files = fb @ f # fa
          \<and> file_records (json_load fs (path_join labels_path [f])) = rb @ (name, details) # ra
          \<and> py_get_key details ''is_fake'' = Inr (JInt b)
          \<and> (\<forall>r \<in> set ra \<union> set (all_records fs labels_path fa).
                 split_dot_0 (fst r) \<noteq> split_dot_0 name)
          \<longrightarrow> m (split_dot_0 name) = Some (of_int b))"
proof -
  define records where "records = all_records fs labels_path files"
  define m where "m = map_of (rev (map record_entry records))"
  have res: "get_labels fs float_str labels_path = Inr m"
    using label_files_entries [OF objs bin, of float_str Map.empty]
    by (simp add: get_labels_def os_listdir_def dir m_def records_def)
  have d: "dom m = (\<lambda>r. split_dot_0 (fst r)) ` set records"
    by (simp add: m_def dom_map_of_conv_image_fst image_image record_entry_def)
  have r: "ran m \<subseteq> {0, 1}"
  proof
    fix y assume "y \<in> ran m"
    then obtain k where "m k = Some y" by (auto simp: ran_def)
    then have "(k, y) \<in> set (map record_entry records)"
      unfolding m_def by (auto dest: map_of_SomeD)
    then obtain rc where "rc \<in> set records" "record_entry rc = (k, y)" by auto
    then show "y \<in> {0, 1}"
      using bin record_entry_binary [of rc] by (auto simp: records_def)
  qed
  have w: "m (split_dot_0 name) = Some (of_int b)"
    if f: "files = fb @ f # fa"
      and fr: "file_records (json_load fs (path_join labels_path [f])) = rb @ (name, details) # ra"
      and v: "py_get_key details ''is_fake'' = Inr (JInt b)"
      and later: "\<forall>r \<in> set ra \<union> set (all_records fs labels_path fa).
                    split_dot_0 (fst r) \<noteq> split_dot_0 name"
    for fb f fa rb name details ra b
  proof -
    have e: "record_entry (name, details) = (split_dot_0 name, of_int b)"
      by (simp add: record_entry_def v)
    have "map record_entry records =
            (map record_entry (all_records fs labels_path fb @ rb))
            @ (split_dot_0 name, of_int b)
            # map record_entry (ra @ all_records fs labels_path fa)"
      by (simp add: records_def f all_records_append fr e)
    moreover have "\<forall>r \<in> set (map record_entry (ra @ all_records fs labels_path fa)).
                     fst r \<noteq> split_dot_0 name"
    proof
      fix r assume "r \<in> set (map record_entry (ra @ all_records fs labels_path fa))"
      then obtain rc where rc: "rc \<in> set ra \<union> set (all_records fs labels_path fa)"
        and r: "r = record_entry rc" by auto
      have "split_dot_0 (fst rc) \<noteq> split_dot_0 name" using later rc by blast
      then show "fst r \<noteq> split_dot_0 name" by (simp add: r record_entry_def)
    qed
    ultimately show ?thesis
      unfolding m_def by (simp only: map_of_rev_last)
  qed
  show ?thesis
  proof (intro exI conjI allI impI)
    show "get_labels fs float_str labels_path = Inr m" by (rule res)
    show "dom m = (\<lambda>r. split_dot_0 (fst r)) ` set (all_records fs labels_path files)"
      using d by (simp add: records_def)
    show "ran m \<subseteq> {0, 1}" by (rule r)
  next
    fix fb f fa rb name details ra b
    assume a: "files = fb @ f # fa
          \<and> file_records (json_load fs (path_join labels_path [f])) = rb @ (name, details) # ra
          \<and> py_get_key details ''is_fake'' = Inr (JInt b)
          \<and> (\<forall>r \<in> set ra \<union> set (all_records fs labels_path fa).
                 split_dot_0 (fst r) \<noteq> split_dot_0 name)"
    have a1: "files = fb @ f # fa" using a by (rule conjunct1)
    have a2: "file_records (json_load fs (path_join labels_path [f])) = rb @ (name, details) # ra"
      using a by (elim conjE)
    have a3: "py_get_key details ''is_fake'' = Inr (JInt b)" using a by (elim conjE)
    have a4: "\<forall>r \<in> set ra \<union> set (all_records fs labels_path fa).
                 split_dot_0 (fst r) \<noteq> split_dot_0 name" using a by (elim conjE)
    show "m (split_dot_0 name) = Some (of_int b)" by (rule w [OF a1 a2 a3 a4])
  qed
qed

theorem get_labels_last_write_wins_witness:
  "\<exists>m. get_labels ex_label_fs ex_float ''meta'' = Inr m \<and> m ''abc'' = Some 1 \<and> dom m = {''abc''}"
proof -
  have pj: "path_join ''meta'' [''m1.json''] = ''meta/m1.json''"
           "path_join ''meta'' [''m2.json''] = ''meta/m2.json''"
    by (simp_all add: path_join_def path_join2_def)
  have h1: "listdir ex_label_fs ''meta'' = Some [''m1.json'', ''m2.json'']"
    by (simp add: ex_label_fs_def)
  have h2: "\<forall>f \<in> set [''m1.json'', ''m2.json''].
              \<exists>kvs. json_load ex_label_fs (path_join ''meta'' [f]) = Inr (JObj kvs)"
    by (simp add: pj ex_label_fs_def)
  have recs: "all_records ex_label_fs ''meta'' [''m1.json'', ''m2.json'']
              = [(''abc.mp4'', JObj [(''is_fake'', JInt 0)]), (''abc.mp4'', JObj [(''is_fake'', JInt 1)])]"
    by (simp add: all_records_def pj ex_label_fs_def)
  have h3: "\<forall>r \<in> set (all_records ex_label_fs ''meta'' [''m1.json'', ''m2.json'']). binary_record r"
    by (simp add: recs binary_record_def)
  obtain m where m: "get_labels ex_label_fs ex_float ''meta'' = Inr m"
    and d: "dom m = (\<lambda>r. split_dot_0 (fst r)) ` set (all_records ex_label_fs ''meta'' [''m1.json'', ''m2.json''])"
    and w: "\<And>fb f fa rb name details ra b.
          [''m1.json'', ''m2.json''] = fb @ f # fa
          \<and> file_records (json_load ex_label_fs (path_join ''meta'' [f])) = rb @ (name, details) # ra
          \<and> py_get_key details ''is_fake'' = Inr (JInt b)
          \<and> (\<forall>r \<in> set ra \<union> set (all_records ex_label_fs ''meta'' fa).
                 split_dot_0 (fst r) \<noteq> split_dot_0 name)
          \<Longrightarrow> m (split_dot_0 name) = Some (of_int b)"
    using get_labels_last_write_wins [OF h1 h2 h3, of ex_float] by blast
  have "m (split_dot_0 ''abc.mp4'') = Some (of_int 1)"
    by (rule w [of "[''m1.json'']" "''m2.json''" "[]" "[]" _ "JObj [(''is_fake'', JInt 1)]" "[]"])
       (simp add: pj ex_label_fs_def all_records_def)
  moreover have "split_dot_0 ''abc.mp4'' = ''abc''" by (simp add: split_dot_0_def)
  ultimately have "m ''abc'' = Some 1" by simp
  moreover have "dom m = {''abc''}" by (simp add: d recs split_dot_0_def)
  ultimately show ?thesis using m by blast
qed



section \<open>The inference profile of the augmentation\<close>

text \<open>With \<open>augmentation\<close> off, the pipeline has the three shape stages only, each always
  applied; the numbers drawn for them decide nothing.\<close>

lemma Compose_inference:
  "fst (Compose lib (aug_stages False img_size) g (a, b)) =
     (resize lib img_size img_size
        (pad_if_needed lib img_size img_size (longest_max_size lib img_size 1 a)),
      resize lib img_size img_size
        (pad_if_needed lib img_size img_size (longest_max_size lib img_size 1 b)))"
  by (simp add: aug_stages_def split: prod.splits)


text \<open>
  C8. The inference profile is deterministic: whatever the state of the random generator
  at two applications to the same pair, the two output pairs are equal.
\<close>

theorem inference_augmentation_deterministic:
  "fst (Compose lib (aug_stages False img_size) g1 pair)
   = fst (Compose lib (aug_stages False img_size) g2 pair)"
  by (cases pair) (simp only: Compose_inference)


section \<open>The spatial branch\<close>

text \<open>Whenever the extractor returns, \<open>Spatial.forward\<close> returns its own argument.\<close>

lemma Spatial_forward_ignores_extractor:
  "efficient_net x = Inr y \<Longrightarrow> Spatial_forward efficient_net x = Inr x"
  by (simp add: Spatial_forward_def EfficientNetBlock_forward_def)


text \<open>
  C1 fails on the code. On a batch of four frames \<open>(4, 3, 224, 224)\<close>, with an extractor
  that yields one score per frame, \<open>Spatial.forward\<close> returns the batch itself and not the
  extractor's \<open>(4, 1)\<close> scores; the model's next step, the view of the branch output as
  \<open>(n, g * f)\<close>, then raises.
\<close>

theorem Spatial_forward_returns_input:
  "Spatial_forward (classifier_shape 1) [4, 3, 224, 224] = Inr [4, 3, 224, 224]
   \<and> EfficientNetBlock_forward (classifier_shape 1) [4, 3, 224, 224] = Inr [4, 1]
   \<and> TheModel_forward
        \<lparr>batch_size = 1, groups_per_video = 2, frames_per_group = 2,
          channels = 3, height = 224, width = 224\<rparr>
        3 (classifier_shape 1) (classifier_shape 1) [1, 2, 2, 3, 224, 224] = Inl RuntimeError"
  by (simp add: Spatial_forward_def EfficientNetBlock_forward_def classifier_shape_def
        TheModel_forward_def view_def)


section \<open>The spatiotemporal branch\<close>

text \<open>
  C5 fails on the code for a batch of one. With two frames per group and three motion
  features, the identity extractor shows what the extractor is given: for the batch
  \<open>(1, 2, 3, 224, 224)\<close> it is \<open>(3, 224, 224)\<close>, the batch axis having been removed together
  with the depth axis, and an extractor that wants a batch of images raises; for a batch of
  two it is \<open>(2, 3, 224, 224)\<close>.
\<close>

theorem Spatiotemporal_forward_squeezes_batch:
  "Spatiotemporal_forward 2 3 Inr [1, 2, 3, 224, 224] = Inr [3, 224, 224]
   \<and> Spatiotemporal_forward 2 3 Inr [2, 2, 3, 224, 224] = Inr [2, 3, 224, 224]
   \<and> Spatiotemporal_forward 2 3 (classifier_shape 1) [1, 2, 3, 224, 224] = Inl RuntimeError
   \<and> Spatiotemporal_forward 2 3 (classifier_shape 1) [2, 2, 3, 224, 224] = Inr [2, 1]"
  by (simp add: Spatiotemporal_forward_def EfficientNetBlock_forward_def classifier_shape_def
        permute_def Conv3d_def squeeze_def)


end
